theory Spec2Isabelle
  imports Main "HOL-Library.Char_ord" "HOL-Library.List_Lexorder"
begin

section \<open>rpi-vidlooper: the GPIO-controlled video looper\<close>

text \<open>
  A shallow embedding of \<^verbatim>\<open>rpi_vidlooper/vidlooper.py\<close>. The object's configuration
  attributes (set once by the constructor) are a record; the attributes that change while
  the looper runs (\<^verbatim>\<open>_active_vid\<close>, \<^verbatim>\<open>_p\<close>, \<^verbatim>\<open>_splashproc\<close>) live in a second
  record together with the part of the outside world the methods act on: the levels of the
  GPIO output channels, the player processes that have been started and neither signalled
  nor waited for, and the sequence of actions performed so far. Every method takes that
  record and returns the new one; a raised exception is a returned value.
\<close>

subsection \<open>Data\<close>

datatype level = LOW | HIGH

datatype signal = SIGINT | SIGKILL

datatype error =
    ValueError | IndexError | TypeError | AssertionError | OSError
  | FileNotFoundError | NoVideosFound | KeyboardInterrupt | RuntimeError

text \<open>The two attributes that make up the playback state.\<close>

datatype field = F_p | F_active_vid

text \<open>
  The actions a method performs, in program order. \<^verbatim>\<open>Acquire\<close> and \<^verbatim>\<open>Release\<close> are the
  entry and exit of \<^verbatim>\<open>with self._mutex\<close>; \<^verbatim>\<open>Read\<close> and \<^verbatim>\<open>Write\<close> record each access
  of \<^verbatim>\<open>self._p\<close> and \<^verbatim>\<open>self._active_vid\<close>; \<^verbatim>\<open>Killpg pid sig\<close> is
  \<^verbatim>\<open>os.killpg(os.getpgid(pid), sig)\<close>; \<^verbatim>\<open>Popen cmd piped setsid r\<close> is a call of
  \<^verbatim>\<open>Popen\<close> with the command line, whether stdout is a pipe, whether
  \<^verbatim>\<open>preexec_fn=os.setsid\<close> is given, and what it returned (\<^verbatim>\<open>None\<close>: it raised).
\<close>

datatype event =
    Acquire | Release
  | Read field | Write field
  | GpioSetmodeBCM
  | GpioSetupIn int
  | GpioSetupOut int
  | GpioOutput int level
  | GpioAddEventDetect int
  | GpioCleanup
  | Killpg int signal
  | Popen "string list" bool bool "int option"
  | Communicate int
  | System string
  | SleepHalfSecond

text \<open>
  The constructor's result. \<^verbatim>\<open>gpio_pins\<close> is a Python dict from input pin to optional
  output pin; its items are kept in insertion order, which is the order \<^verbatim>\<open>in_pins\<close>
  and the loops over \<^verbatim>\<open>items()\<close> see.
\<close>

record looper =
  gpio_pins :: "(int \<times> int option) list"
  shutdown_pin :: "int option"
  videos :: "string list"
  debug :: bool
  audio :: string
  autostart :: bool
  restart_on_press :: bool
  loop :: bool
  no_osd :: bool
  splash :: "string option"

text \<open>
  The mutable part. \<^verbatim>\<open>p_proc\<close> is \<^verbatim>\<open>self._p\<close>, a process handle identified by its pid.
  \<^verbatim>\<open>live\<close> lists the player processes that \<^verbatim>\<open>Popen\<close> has started and that have
  neither been sent a signal by \<^verbatim>\<open>_kill_process\<close> nor been waited for by
  \<^verbatim>\<open>communicate\<close>. \<^verbatim>\<open>levels\<close> gives the level of each GPIO channel driven as an output.
\<close>

record machine =
  active_vid :: "string option"
  p_proc :: "int option"
  splashproc :: "int option"
  levels :: "int \<rightharpoonup> level"
  live :: "int list"
  trace :: "event list"

definition initial :: machine where
  "initial = \<lparr>active_vid = None, p_proc = None, splashproc = None,
              levels = Map.empty, live = [], trace = []\<rparr>"

definition GPIO_PIN_DEFAULT :: "(int \<times> int option) list" where
  "GPIO_PIN_DEFAULT = [(26, Some 21), (19, Some 20), (13, Some 16), (6, Some 12)]"

definition VIDEO_EXTS :: "string list" where
  "VIDEO_EXTS = [''.mp4'', ''.m4v'', ''.mov'', ''.avi'', ''.mkv'']"

subsection \<open>Small helpers\<close>

definition emit :: "event \<Rightarrow> machine \<Rightarrow> machine" where
  "emit e s = s\<lparr>trace := trace s @ [e]\<rparr>"

text \<open>\<^verbatim>\<open>GPIO.output(pin, value)\<close>\<close>

definition gpio_output :: "int \<Rightarrow> level \<Rightarrow> machine \<Rightarrow> machine" where
  "gpio_output pin v s = emit (GpioOutput pin v) (s\<lparr>levels := (levels s)(pin \<mapsto> v)\<rparr>)"

text \<open>\<^verbatim>\<open>tuple.index(x)\<close>: the first position of \<^verbatim>\<open>x\<close>, \<^verbatim>\<open>None\<close> where Python raises ValueError.\<close>

fun index_of :: "'a \<Rightarrow> 'a list \<Rightarrow> nat option" where
  "index_of x [] = None"
| "index_of x (y # ys) = (if y = x then Some 0 else map_option Suc (index_of x ys))"

text \<open>The property \<^verbatim>\<open>in_pins\<close>: \<^verbatim>\<open>tuple(self.gpio_pins.keys())\<close>\<close>

definition in_pins :: "looper \<Rightarrow> int list" where
  "in_pins v = map fst (gpio_pins v)"

text \<open>The output pins that are configured, in dict order.\<close>

definition out_pins :: "(int \<times> int option) list \<Rightarrow> int list" where
  "out_pins pins = List.map_filter snd pins"

subsection \<open>\<^verbatim>\<open>_kill_process\<close>\<close>

definition kill_process :: "machine \<Rightarrow> machine" where
  "kill_process s =
     (let s1 = emit (Read F_p) s in
      case p_proc s1 of
        None \<Rightarrow> s1
      | Some h \<Rightarrow>
          (let s2 = emit (Killpg h SIGINT) (emit (Read F_p) s1);
               s3 = s2\<lparr>live := removeAll h (live s2)\<rparr>
           in emit (Write F_p) (s3\<lparr>p_proc := None\<rparr>)))"

subsection \<open>\<^verbatim>\<open>switch_vid\<close>\<close>

text \<open>
  The loop over \<^verbatim>\<open>self.gpio_pins.items()\<close> at the head of \<^verbatim>\<open>switch_vid\<close>: one
  \<^verbatim>\<open>GPIO.output\<close> per binding that has an output pin.
\<close>

definition write_output :: "int \<Rightarrow> machine \<Rightarrow> int \<times> int option \<Rightarrow> machine" where
  "write_output pin s b =
     (case snd b of
        None \<Rightarrow> s
      | Some out_pin \<Rightarrow> gpio_output out_pin (if fst b = pin then HIGH else LOW) s)"

definition write_outputs :: "(int \<times> int option) list \<Rightarrow> int \<Rightarrow> machine \<Rightarrow> machine" where
  "write_outputs pins pin s = foldl (write_output pin) s pins"

text \<open>The command line of the player.\<close>

definition player_cmd :: "looper \<Rightarrow> string \<Rightarrow> string list" where
  "player_cmd v filename =
     [''omxplayer'', ''-b'', ''-o'', audio v]
     @ (if loop v then [''--loop''] else [])
     @ (if no_osd v then [''--no-osd''] else [])
     @ [filename]"

text \<open>
  \<^verbatim>\<open>switch_vid(pin)\<close>. The argument \<^verbatim>\<open>launch\<close> is what the operating system answers
  should the call reach \<^verbatim>\<open>Popen\<close>: \<^verbatim>\<open>Some pid\<close> for a started process, \<^verbatim>\<open>None\<close> when
  \<^verbatim>\<open>Popen\<close> raises. The result pairs the raised exception, if any, with the machine as the
  call leaves it; the \<^verbatim>\<open>with\<close> block releases the lock on every path.
  \<^verbatim>\<open>os.getpgid\<close>, \<^verbatim>\<open>os.killpg\<close> and \<^verbatim>\<open>GPIO.output\<close> are taken to succeed.
\<close>

definition switch_vid :: "looper \<Rightarrow> int \<Rightarrow> int option \<Rightarrow> machine \<Rightarrow> error option \<times> machine" where
  "switch_vid v pin launch s =
     (let s1 = emit Acquire s;
          s2 = write_outputs (gpio_pins v) pin s1
      in case index_of pin (in_pins v) of
           None \<Rightarrow> (Some ValueError, emit Release s2)
         | Some i \<Rightarrow>
             if length (videos v) \<le> i then (Some IndexError, emit Release s2)
             else
               (let filename = videos v ! i;
                    s3 = emit (Read F_active_vid) s2
                in if Some filename \<noteq> active_vid s3 \<or> restart_on_press v then
                     (let s4 = kill_process s3;
                          s5 = emit (Popen (player_cmd v filename) (\<not> debug v) True launch) s4
                      in case launch of
                           None \<Rightarrow> (Some OSError, emit Release s5)
                         | Some h \<Rightarrow>
                             (let s6 = emit (Write F_p) (s5\<lparr>p_proc := Some h, live := live s5 @ [h]\<rparr>);
                                  s7 = emit (Write F_active_vid) (s6\<lparr>active_vid := Some filename\<rparr>)
                              in (None, emit Release s7)))
                   else (None, emit Release s3)))"

text \<open>A sequence of button presses, each with the answer \<^verbatim>\<open>Popen\<close> would give.\<close>

fun presses :: "looper \<Rightarrow> (int \<times> int option) list \<Rightarrow> machine \<Rightarrow> machine" where
  "presses v [] s = s"
| "presses v (e # es) s = presses v es (snd (switch_vid v (fst e) (snd e) s))"

text \<open>The handle, if any, is the only player process that is live.\<close>

definition one_player :: "machine \<Rightarrow> bool" where
  "one_player s = (live s = (case p_proc s of None \<Rightarrow> [] | Some h \<Rightarrow> [h]))"

subsection \<open>The polling loop of \<^verbatim>\<open>start\<close>\<close>

text \<open>\<^verbatim>\<open>self._p.communicate()\<close> returns once the process has exited.\<close>

definition communicate :: "int \<Rightarrow> machine \<Rightarrow> machine" where
  "communicate h s = emit (Communicate h) (s\<lparr>live := removeAll h (live s)\<rparr>)"

text \<open>The loop over \<^verbatim>\<open>self.gpio_pins.values()\<close> that resets the LEDs.\<close>

definition reset_led :: "machine \<Rightarrow> int option \<Rightarrow> machine" where
  "reset_led s out_pin = (case out_pin of None \<Rightarrow> s | Some out \<Rightarrow> gpio_output out LOW s)"

definition reset_leds :: "(int \<times> int option) list \<Rightarrow> machine \<Rightarrow> machine" where
  "reset_leds pins s = foldl reset_led s (map snd pins)"

text \<open>
  One iteration of \<^verbatim>\<open>while True\<close>, run without a callback in between: the sleep, and
  when looping is off the wait for the player and the reset. \<^verbatim>\<open>pid\<close> starts as \<^verbatim>\<open>-1\<close>.
  The body takes no lock.
\<close>

definition poll_tick :: "looper \<Rightarrow> machine \<Rightarrow> machine" where
  "poll_tick v s =
     (let s0 = emit SleepHalfSecond s in
      if loop v then s0
      else
        (let s1 = emit (Read F_p) s0;
             pid = (case p_proc s1 of None \<Rightarrow> - 1 | Some h \<Rightarrow> h);
             s2 = (case p_proc s1 of
                     None \<Rightarrow> s1
                   | Some h \<Rightarrow> communicate h (emit (Read F_p) (emit (Read F_p) s1)));
             s3 = emit (Read F_p) s2
         in case p_proc s3 of
              None \<Rightarrow> s3
            | Some h' \<Rightarrow>
                (let s4 = emit (Read F_p) s3 in
                 if h' = pid then
                   (let s5 = reset_leds (gpio_pins v) s4;
                        s6 = emit (Write F_active_vid) (s5\<lparr>active_vid := None\<rparr>)
                    in emit (Write F_p) (s6\<lparr>p_proc := None\<rparr>))
                 else s4)))"

subsection \<open>\<^verbatim>\<open>__del__\<close>\<close>

text \<open>
  The teardown. \<^verbatim>\<open>GPIO.cleanup()\<close> returns every channel to an input, so no output level
  remains. The splash process is started by \<^verbatim>\<open>Popen\<close> without \<^verbatim>\<open>preexec_fn=os.setsid\<close>,
  so it stays in the process group of the looper: \<^verbatim>\<open>os.killpg(os.getpgid(pid), SIGKILL)\<close>
  on it kills that whole group, the looper included, and the call does not return. The
  flag of the result tells whether \<^verbatim>\<open>__del__\<close> returned.
\<close>

definition dunder_del :: "looper \<Rightarrow> machine \<Rightarrow> bool \<times> machine" where
  "dunder_del v s =
     (let s1 = (if \<not> debug v then emit (System ''tput cnorm'') s else s);
          s2 = emit GpioCleanup (s1\<lparr>levels := Map.empty\<rparr>);
          s3 = kill_process s2
      in case splashproc s3 of
           None \<Rightarrow> (True, s3)
         | Some sp \<Rightarrow> (False, emit (Killpg sp SIGKILL) s3))"

subsection \<open>\<^verbatim>\<open>start\<close>\<close>

definition setup_pin :: "machine \<Rightarrow> int \<times> int option \<Rightarrow> machine" where
  "setup_pin s b =
     (let s1 = emit (GpioSetupIn (fst b)) s in
      case snd b of
        None \<Rightarrow> s1
      | Some out_pin \<Rightarrow> gpio_output out_pin LOW (emit (GpioSetupOut out_pin) s1))"

text \<open>\<^verbatim>\<open>if self.shutdown_pin:\<close> is false for \<^verbatim>\<open>None\<close> and for pin 0.\<close>

definition setup_shutdown :: "looper \<Rightarrow> machine \<Rightarrow> machine" where
  "setup_shutdown v s =
     (case shutdown_pin v of
        None \<Rightarrow> s
      | Some sp \<Rightarrow>
          if sp = 0 then s
          else emit (GpioAddEventDetect sp) (emit (GpioSetupIn sp) s))"

text \<open>
  The \<^verbatim>\<open>if self.autostart:\<close> block: the splash image, or else the first video.
  \<^verbatim>\<open>self.in_pins[0]\<close> raises IndexError on an empty pin table.
\<close>

definition autostart_step :: "looper \<Rightarrow> int option \<Rightarrow> machine \<Rightarrow> error option \<times> machine" where
  "autostart_step v launch s =
     (if autostart v then
        (case splash v of
           Some img \<Rightarrow>
             (let s1 = emit (Popen [''fbi'', ''--noverbose'', ''-a'', img] False False launch) s
              in case launch of
                   None \<Rightarrow> (Some OSError, s1)
                 | Some h \<Rightarrow> (None, s1\<lparr>splashproc := Some h\<rparr>))
         | None \<Rightarrow>
             (case in_pins v of
                [] \<Rightarrow> (Some IndexError, s)
              | pin # _ \<Rightarrow> switch_vid v pin launch s))
      else (None, s))"

text \<open>
  What happens while \<^verbatim>\<open>start\<close> is in its loop: a button callback (with the answer
  \<^verbatim>\<open>Popen\<close> would give it), or one iteration of the loop. A callback runs on the GPIO
  library's thread, so an exception it raises does not reach the loop.
\<close>

datatype step = Press int "int option" | Tick

fun run_step :: "looper \<Rightarrow> machine \<Rightarrow> step \<Rightarrow> machine" where
  "run_step v s (Press pin launch) = snd (switch_vid v pin launch s)"
| "run_step v s Tick = poll_tick v s"

text \<open>
  \<^verbatim>\<open>start()\<close> up to the \<^verbatim>\<open>try\<close>: the screen, the GPIO channels, the shutdown pin, the
  autostart and the registration of the callbacks. The GPIO calls are taken to succeed; an
  exception of the autostart leaves \<^verbatim>\<open>start\<close> at once.
\<close>

definition start_setup :: "looper \<Rightarrow> int option \<Rightarrow> machine \<Rightarrow> error option \<times> machine" where
  "start_setup v launch s =
     (let s1 = (if \<not> debug v then emit (System ''tput civis'') (emit (System ''clear'') s) else s);
          s2 = emit GpioSetmodeBCM s1;
          s3 = foldl setup_pin s2 (gpio_pins v);
          s4 = setup_shutdown v s3
      in case autostart_step v launch s4 of
           (Some e, s5) \<Rightarrow> (Some e, s5)
         | (None, s5) \<Rightarrow>
             (None, foldl (\<lambda>s pin. emit (GpioAddEventDetect pin) s) s5 (in_pins v)))"

text \<open>How a call ends: an exception reaches the caller, or the looper has been killed.\<close>

datatype outcome = Raised error | Killed

text \<open>
  The \<^verbatim>\<open>try\<close> statement. \<^verbatim>\<open>while True\<close> has no exit of its own: the loop ends when an
  exception \<^verbatim>\<open>exc\<close> is raised in it, here after the steps \<^verbatim>\<open>sched\<close>; the \<^verbatim>\<open>finally\<close>
  clause then calls \<^verbatim>\<open>__del__\<close>, and the exception goes on to the caller if that call
  returns.
\<close>

definition run_loop :: "looper \<Rightarrow> step list \<Rightarrow> error \<Rightarrow> machine \<Rightarrow> outcome \<times> machine" where
  "run_loop v sched exc s =
     (case dunder_del v (foldl (run_step v) s sched) of
        (True, s') \<Rightarrow> (Raised exc, s')
      | (False, s') \<Rightarrow> (Killed, s'))"

definition start :: "looper \<Rightarrow> int option \<Rightarrow> step list \<Rightarrow> error \<Rightarrow> machine \<Rightarrow> outcome \<times> machine" where
  "start v launch sched exc s =
     (case start_setup v launch s of
        (Some e, s') \<Rightarrow> (Raised e, s')
      | (None, s') \<Rightarrow> run_loop v sched exc s')"


subsection \<open>\<^verbatim>\<open>__init__\<close>\<close>

text \<open>\<^verbatim>\<open>str.rfind\<close> of a character: the last position, or \<^verbatim>\<open>-1\<close>.\<close>

definition rfind :: "char \<Rightarrow> string \<Rightarrow> int" where
  "rfind c s = (case index_of c (rev s) of None \<Rightarrow> - 1 | Some k \<Rightarrow> int (length s) - 1 - int k)"

text \<open>
  \<^verbatim>\<open>os.path.splitext(p)[1]\<close> on POSIX: the extension starts at the last dot, provided that
  dot comes after the last slash and some character between them is not a dot.
\<close>

definition splitext_ext :: "string \<Rightarrow> string" where
  "splitext_ext p =
     (let sepIndex = rfind CHR ''/'' p; dotIndex = rfind CHR ''.'' p in
      if sepIndex < dotIndex
         \<and> list_ex (\<lambda>k. p ! k \<noteq> CHR ''.'') [nat (sepIndex + 1) ..< nat dotIndex]
      then drop (nat dotIndex) p else [])"

text \<open>\<^verbatim>\<open>os.path.join(a, b)\<close> on POSIX.\<close>

definition path_join :: "string \<Rightarrow> string \<Rightarrow> string" where
  "path_join a b =
     (if take 1 b = ''/'' then b
      else if a = [] \<or> last a = CHR ''/'' then a @ b
      else a @ ''/'' @ b)"

text \<open>
  Lines 79 to 91: the list of videos. \<^verbatim>\<open>path_exists\<close> is \<^verbatim>\<open>os.path.exists\<close> and
  \<^verbatim>\<open>listdir\<close> is \<^verbatim>\<open>os.listdir\<close> (\<^verbatim>\<open>None\<close> where it raises). \<^verbatim>\<open>if videos:\<close> is false
  for \<^verbatim>\<open>None\<close> and for an empty sequence.
\<close>

definition assemble_videos ::
  "(string \<Rightarrow> bool) \<Rightarrow> (string \<Rightarrow> string list option) \<Rightarrow> string \<Rightarrow> string list option
   \<Rightarrow> error + string list" where
  "assemble_videos path_exists listdir video_dir a_videos =
     (if a_videos \<noteq> None \<and> a_videos \<noteq> Some [] then
        (if list_all path_exists (the a_videos) then Inr (the a_videos)
         else Inl FileNotFoundError)
      else
        (case listdir video_dir of
           None \<Rightarrow> Inl OSError
         | Some names \<Rightarrow>
             (let vids = map (path_join video_dir)
                           (filter (\<lambda>f. splitext_ext f \<in> set VIDEO_EXTS) (sort names))
              in if vids = [] then Inl NoVideosFound else Inr vids)))"

text \<open>
  The constructor, with its arguments in the order of the signature. The first assertion
  takes \<^verbatim>\<open>len\<close> of the argument \<^verbatim>\<open>videos\<close>, which raises TypeError on \<^verbatim>\<open>None\<close>.
\<close>

definition init ::
  "(string \<Rightarrow> bool) \<Rightarrow> (string \<Rightarrow> string list option)
   \<Rightarrow> string \<Rightarrow> bool \<Rightarrow> bool \<Rightarrow> string \<Rightarrow> string list option
   \<Rightarrow> (int \<times> int option) list option \<Rightarrow> bool \<Rightarrow> bool \<Rightarrow> int option \<Rightarrow> string option \<Rightarrow> bool
   \<Rightarrow> error + looper" where
  "init path_exists listdir a_audio a_autostart a_restart_on_press video_dir a_videos
        a_gpio_pins a_loop a_no_osd a_shutdown_pin a_splash a_debug =
     (let pins = (case a_gpio_pins of None \<Rightarrow> GPIO_PIN_DEFAULT | Some g \<Rightarrow> g) in
      case assemble_videos path_exists listdir video_dir a_videos of
        Inl e \<Rightarrow> Inl e
      | Inr self_videos \<Rightarrow>
          (case a_videos of
             None \<Rightarrow> Inl TypeError
           | Some vs \<Rightarrow>
               if \<not> length vs \<le> length pins then Inl AssertionError
               else if a_audio \<notin> set [''hdmi'', ''local'', ''both''] then Inl AssertionError
               else Inr \<lparr>gpio_pins = pins, shutdown_pin = a_shutdown_pin,
                         videos = self_videos, debug = a_debug, audio = a_audio,
                         autostart = a_autostart, restart_on_press = a_restart_on_press,
                         loop = a_loop, no_osd = a_no_osd, splash = a_splash\<rparr>))"

subsection \<open>Reading a trace\<close>

text \<open>The \<^verbatim>\<open>GPIO.output\<close> calls of the loop at the head of \<^verbatim>\<open>switch_vid\<close>, in order.\<close>

definition output_event :: "int \<Rightarrow> int \<times> int option \<Rightarrow> event list" where
  "output_event pin b =
     (case snd b of
        None \<Rightarrow> []
      | Some out_pin \<Rightarrow> [GpioOutput out_pin (if fst b = pin then HIGH else LOW)])"

definition output_events :: "(int \<times> int option) list \<Rightarrow> int \<Rightarrow> event list" where
  "output_events pins pin = concat (map (output_event pin) pins)"

text \<open>The stops and starts of processes among the actions.\<close>

fun is_process_event :: "event \<Rightarrow> bool" where
  "is_process_event (Killpg h sig) = True"
| "is_process_event (Popen cmd piped setsid r) = True"
| "is_process_event e = False"

definition process_events :: "machine \<Rightarrow> event list" where
  "process_events s = filter is_process_event (trace s)"



text \<open>How often \<^verbatim>\<open>GPIO.cleanup()\<close>, which only the teardown calls, has run.\<close>

definition cleanups :: "machine \<Rightarrow> nat" where
  "cleanups s = length (filter (\<lambda>e. e = GpioCleanup) (trace s))"


text \<open>The actions a call added to the trace it started from.\<close>

definition added :: "machine \<Rightarrow> machine \<Rightarrow> event list" where
  "added s s' = drop (length (trace s)) (trace s')"

text \<open>
  \<^verbatim>\<open>guarded held es\<close>: in the actions \<^verbatim>\<open>es\<close>, started with the lock held or not, every
  access of the playback state happens between an \<^verbatim>\<open>Acquire\<close> and the next \<^verbatim>\<open>Release\<close>.
  \<^verbatim>\<open>lock_after\<close> tells whether the lock is held at the end.
\<close>

fun guarded :: "bool \<Rightarrow> event list \<Rightarrow> bool" where
  "guarded held [] = True"
| "guarded held (Acquire # es) = guarded True es"
| "guarded held (Release # es) = guarded False es"
| "guarded held (Read f # es) = (held \<and> guarded held es)"
| "guarded held (Write f # es) = (held \<and> guarded held es)"
| "guarded held (e # es) = guarded held es"

fun lock_after :: "bool \<Rightarrow> event list \<Rightarrow> bool" where
  "lock_after held [] = held"
| "lock_after held (Acquire # es) = lock_after True es"
| "lock_after held (Release # es) = lock_after False es"
| "lock_after held (e # es) = lock_after held es"

subsection \<open>Concrete configurations and states\<close>

text \<open>The example of the specification: two buttons with their LEDs, two videos.\<close>

definition example_looper :: looper where
  "example_looper =
     \<lparr>gpio_pins = [(26, Some 21), (19, Some 20)], shutdown_pin = None,
      videos = [''a.mp4'', ''b.mp4''], debug = False, audio = ''hdmi'',
      autostart = True, restart_on_press = False, loop = True, no_osd = False,
      splash = None\<rparr>"

text \<open>The example after button 26 has started the first video as process 100.\<close>

definition playing_a :: machine where
  "playing_a = snd (switch_vid example_looper 26 (Some 100) initial)"

text \<open>The example with looping switched off, its first video playing.\<close>

definition once_looper :: looper where
  "once_looper = example_looper\<lparr>loop := False\<rparr>"

definition once_playing :: machine where
  "once_playing = snd (switch_vid once_looper 26 (Some 100) initial)"

text \<open>Three buttons for two videos.\<close>

definition spare_looper :: looper where
  "spare_looper = example_looper\<lparr>gpio_pins := [(26, Some 21), (19, Some 20), (13, Some 16)]\<rparr>"

text \<open>
  There button 26 starts the first video as process 100, and then the spare button 13 is
  pressed: the call fails, the video goes on playing.
\<close>

definition spare_pressed :: machine where
  "spare_pressed =
     snd (switch_vid spare_looper 13 (Some 101)
            (snd (switch_vid spare_looper 26 (Some 100) initial)))"


section \<open>Properties\<close>

lemma emit_fields [simp]:
  "active_vid (emit e s) = active_vid s" "p_proc (emit e s) = p_proc s"
  "splashproc (emit e s) = splashproc s" "levels (emit e s) = levels s"
  "live (emit e s) = live s" "trace (emit e s) = trace s @ [e]"
  by (simp_all add: emit_def)

lemma write_output_fields [simp]:
  "active_vid (write_output pin s b) = active_vid s" "p_proc (write_output pin s b) = p_proc s"
  "splashproc (write_output pin s b) = splashproc s" "live (write_output pin s b) = live s"
  by (simp_all add: write_output_def gpio_output_def split: option.splits)

lemma write_outputs_fields [simp]:
  "active_vid (write_outputs pins pin s) = active_vid s"
  "p_proc (write_outputs pins pin s) = p_proc s"
  "splashproc (write_outputs pins pin s) = splashproc s"
  "live (write_outputs pins pin s) = live s"
  unfolding write_outputs_def by (induction pins arbitrary: s) simp_all

lemma kill_process_fields [simp]:
  "active_vid (kill_process s) = active_vid s"
  "p_proc (kill_process s) = None"
  "splashproc (kill_process s) = splashproc s"
  "levels (kill_process s) = levels s"
  by (simp_all add: kill_process_def Let_def split: option.splits)

lemma kill_process_live:
  "live (kill_process s) = (case p_proc s of None \<Rightarrow> live s | Some h \<Rightarrow> removeAll h (live s))"
  by (simp add: kill_process_def Let_def split: option.splits)

lemma one_player_kill: "one_player s \<Longrightarrow> live (kill_process s) = []"
  by (simp add: one_player_def kill_process_live split: option.splits)

lemma one_player_switch_vid: "one_player s \<Longrightarrow> one_player (snd (switch_vid v pin launch s))"
  by (auto simp: switch_vid_def Let_def one_player_def kill_process_live
           split: option.splits)

lemma one_player_presses: "one_player s \<Longrightarrow> one_player (presses v es s)"
  by (induction es arbitrary: s) (simp_all add: one_player_switch_vid)

lemma one_player_initial: "one_player initial"
  by (simp add: one_player_def initial_def)

text \<open>
  C1. Whatever sequence of button presses the looper is given from its initial state,
  and whether their launches succeed or not, at most one player process is live
  afterwards, and there is one exactly when \<^verbatim>\<open>_p\<close> holds its handle.
\<close>

theorem C1_at_most_one_player:
  "length (live (presses v es initial)) \<le> 1
   \<and> live (presses v es initial) = (case p_proc (presses v es initial) of None \<Rightarrow> [] | Some h \<Rightarrow> [h])"
proof -
  have "one_player (presses v es initial)"
    by (rule one_player_presses [OF one_player_initial])
  then show ?thesis
    by (simp add: one_player_def split: option.splits)
qed

lemma gpio_output_fields [simp]:
  "active_vid (gpio_output out l s) = active_vid s" "p_proc (gpio_output out l s) = p_proc s"
  "splashproc (gpio_output out l s) = splashproc s" "live (gpio_output out l s) = live s"
  "levels (gpio_output out l s) = (levels s)(out \<mapsto> l)"
  "trace (gpio_output out l s) = trace s @ [GpioOutput out l]"
  by (simp_all add: gpio_output_def)

lemma write_output_trace: "trace (write_output pin s b) = trace s @ output_event pin b"
  by (simp add: write_output_def output_event_def split: option.splits)

lemma write_outputs_trace:
  "trace (write_outputs pins pin s) = trace s @ output_events pins pin"
  unfolding write_outputs_def output_events_def
  by (induction pins arbitrary: s) (simp_all add: write_output_trace)

lemma out_pins_Cons:
  "out_pins (b # pins) = (case snd b of None \<Rightarrow> out_pins pins | Some out \<Rightarrow> out # out_pins pins)"
  by (simp add: out_pins_def List.map_filter_simps split: option.splits)

lemma out_pins_Nil [simp]: "out_pins [] = []"
  by (simp add: out_pins_def List.map_filter_simps)

lemma out_pins_iff: "out \<in> set (out_pins pins) \<longleftrightarrow> (\<exists>i. (i, Some out) \<in> set pins)"
  by (induction pins) (auto simp: out_pins_Cons split: option.splits)

lemma write_outputs_Nil [simp]: "write_outputs [] pin s = s"
  by (simp add: write_outputs_def)

lemma write_outputs_Cons [simp]:
  "write_outputs (b # pins) pin s = write_outputs pins pin (write_output pin s b)"
  by (simp add: write_outputs_def)

lemma write_outputs_other:
  "out \<notin> set (out_pins pins) \<Longrightarrow> levels (write_outputs pins pin s) out = levels s out"
  by (induction pins arbitrary: s)
     (auto simp: out_pins_Cons write_output_def split: option.splits)

lemma write_outputs_level:
  "distinct (out_pins pins) \<Longrightarrow> (i, Some out) \<in> set pins \<Longrightarrow>
   levels (write_outputs pins pin s) out = Some (if i = pin then HIGH else LOW)"
proof (induction pins arbitrary: s)
  case Nil
  then show ?case by simp
next
  case (Cons b pins)
  show ?case
  proof (cases "b = (i, Some out)")
    case True
    with Cons.prems have "out \<notin> set (out_pins pins)"
      by (simp add: out_pins_Cons)
    then show ?thesis
      using True by (simp add: write_outputs_other write_output_def)
  next
    case False
    with Cons.prems have "(i, Some out) \<in> set pins" and "distinct (out_pins pins)"
      by (auto simp: out_pins_Cons split: option.splits)
    then show ?thesis
      by (simp add: Cons.IH)
  qed
qed

lemma write_outputs_idle:
  "(\<forall>i out. (i, Some out) \<in> set pins \<longrightarrow> levels s out = Some (if i = pin then HIGH else LOW))
   \<Longrightarrow> levels (write_outputs pins pin s) = levels s"
proof (induction pins arbitrary: s)
  case Nil
  then show ?case by simp
next
  case (Cons b pins)
  have same: "levels (write_output pin s b) = levels s"
  proof (cases b)
    case (Pair i o_pin)
    show ?thesis
    proof (cases o_pin)
      case None
      with Pair show ?thesis by (simp add: write_output_def)
    next
      case (Some out)
      with Pair Cons.prems have "levels s out = Some (if i = pin then HIGH else LOW)"
        by simp
      with Pair Some show ?thesis
        by (simp add: write_output_def map_upd_triv)
    qed
  qed
  have "levels (write_outputs pins pin (write_output pin s b)) = levels (write_output pin s b)"
    by (rule Cons.IH) (use Cons.prems same in simp)
  with same show ?case by simp
qed

lemma write_outputs_unknown:
  "pin \<notin> fst ` set pins \<Longrightarrow> out \<in> set (out_pins pins) \<Longrightarrow>
   levels (write_outputs pins pin s) out = Some LOW"
proof (induction pins arbitrary: s)
  case Nil
  then show ?case by simp
next
  case (Cons b pins)
  show ?case
  proof (cases "out \<in> set (out_pins pins)")
    case True
    with Cons show ?thesis by simp
  next
    case False
    with Cons.prems have "snd b = Some out" "fst b \<noteq> pin"
      by (auto simp: out_pins_Cons split: option.splits)
    with False show ?thesis
      by (simp add: write_outputs_other write_output_def)
  qed
qed

lemma index_of_None: "index_of x xs = None \<longleftrightarrow> x \<notin> set xs"
  by (induction xs) auto

lemma index_of_Some: "index_of x xs = Some i \<Longrightarrow> i < length xs \<and> xs ! i = x"
  by (induction xs arbitrary: i) (auto split: if_splits)



lemma write_output_levels:
  "levels (write_output pin s b)
   = (case snd b of None \<Rightarrow> levels s
      | Some out \<Rightarrow> (levels s)(out \<mapsto> (if fst b = pin then HIGH else LOW)))"
  by (simp add: write_output_def split: option.splits)

lemma write_outputs_levels_cong:
  "levels s = levels t \<Longrightarrow> levels (write_outputs pins pin s) = levels (write_outputs pins pin t)"
proof (induction pins arbitrary: s t)
  case Nil
  then show ?case by simp
next
  case (Cons b pins)
  have "levels (write_output pin s b) = levels (write_output pin t b)"
    by (simp only: write_output_levels Cons.prems)
  then have "levels (write_outputs pins pin (write_output pin s b))
             = levels (write_outputs pins pin (write_output pin t b))"
    by (rule Cons.IH)
  then show ?case
    by (simp only: write_outputs_Cons)
qed

lemma switch_vid_levels:
  "levels (snd (switch_vid v pin launch s)) = levels (write_outputs (gpio_pins v) pin s)"
proof -
  have "levels (snd (switch_vid v pin launch s))
        = levels (write_outputs (gpio_pins v) pin (emit Acquire s))"
    by (simp add: switch_vid_def Let_def split: option.splits)
  also have "\<dots> = levels (write_outputs (gpio_pins v) pin s)"
    by (rule write_outputs_levels_cong) simp
  finally show ?thesis .
qed


lemma switch_vid_playback_unknown:
  "index_of pin (in_pins v) = None \<Longrightarrow>
   switch_vid v pin launch s
   = (Some ValueError, emit Release (write_outputs (gpio_pins v) pin (emit Acquire s)))"
  by (simp add: switch_vid_def Let_def)


lemma switch_vid_same:
  "index_of pin (in_pins v) = Some i \<Longrightarrow> i < length (videos v) \<Longrightarrow>
   active_vid s = Some (videos v ! i) \<Longrightarrow> \<not> restart_on_press v \<Longrightarrow>
   switch_vid v pin launch s
   = (None, emit Release (emit (Read F_active_vid)
              (write_outputs (gpio_pins v) pin (emit Acquire s))))"
  by (simp add: switch_vid_def Let_def)

lemma switch_vid_launch_fails:
  "index_of pin (in_pins v) = Some i \<Longrightarrow> i < length (videos v) \<Longrightarrow>
   Some (videos v ! i) \<noteq> active_vid s \<or> restart_on_press v \<Longrightarrow>
   switch_vid v pin None s
   = (Some OSError,
      emit Release (emit (Popen (player_cmd v (videos v ! i)) (\<not> debug v) True None)
        (kill_process (emit (Read F_active_vid)
           (write_outputs (gpio_pins v) pin (emit Acquire s))))))"
  by (simp add: switch_vid_def Let_def)

lemma kill_process_trace:
  "trace (kill_process s)
   = trace s @ (case p_proc s of None \<Rightarrow> [Read F_p]
                | Some h \<Rightarrow> [Read F_p, Read F_p, Killpg h SIGINT, Write F_p])"
  by (simp add: kill_process_def Let_def split: option.splits)

lemma output_events_quiet [simp]:
  "filter is_process_event (output_events pins pin) = []"
  unfolding output_events_def
  by (induction pins) (simp_all add: output_event_def split: option.splits)

text \<open>
  C2. When no output pin is bound to two input pins and \<^verbatim>\<open>switch_vid\<close> completes for a
  bound pin, every configured output pin is HIGH if it is the one paired with the pressed
  pin and LOW otherwise.
\<close>

theorem C2_exclusive_indicator:
  assumes "distinct (out_pins (gpio_pins v))"
    and "pin \<in> set (in_pins v)"
    and "fst (switch_vid v pin launch s) = None"
    and "(i, Some out) \<in> set (gpio_pins v)"
  shows "levels (snd (switch_vid v pin launch s)) out = Some (if i = pin then HIGH else LOW)"
  using assms(1,4) by (simp add: switch_vid_levels write_outputs_level)

theorem C2_witness:
  "levels (snd (switch_vid example_looper 19 (Some 101) playing_a)) 20 = Some HIGH
   \<and> levels (snd (switch_vid example_looper 19 (Some 101) playing_a)) 21 = Some LOW"
proof -
  have d: "distinct (out_pins (gpio_pins example_looper))"
    by code_simp
  have b: "(19::int) \<in> set (in_pins example_looper)"
    by code_simp
  have r: "fst (switch_vid example_looper 19 (Some 101) playing_a) = None"
    by code_simp
  have m1: "(19, Some 20) \<in> set (gpio_pins example_looper)"
    and m2: "(26, Some 21) \<in> set (gpio_pins example_looper)"
    by (simp_all add: example_looper_def)
  show ?thesis
    using C2_exclusive_indicator [OF d b r m1] C2_exclusive_indicator [OF d b r m2]
    by simp
qed

text \<open>
  C4, as stated, fails: with the first video playing and LED 21 lit, a call for pin 5,
  which is no key of the pin table, raises ValueError and leaves LED 21 dark.
\<close>

theorem C4_counterexample:
  "levels playing_a 21 = Some HIGH
   \<and> fst (switch_vid example_looper 5 (Some 101) playing_a) = Some ValueError
   \<and> levels (snd (switch_vid example_looper 5 (Some 101) playing_a)) 21 = Some LOW"
  by code_simp

text \<open>
  C4, amended. For a pin that is no key of the pin table, \<^verbatim>\<open>switch_vid\<close> raises
  ValueError after driving every configured output pin LOW; the active video, the process
  handle and the live processes are as before, and no process is stopped or started.
\<close>

theorem C4_unknown_pin_raises:
  assumes "pin \<notin> set (in_pins v)"
  shows "fst (switch_vid v pin launch s) = Some ValueError
    \<and> active_vid (snd (switch_vid v pin launch s)) = active_vid s
    \<and> p_proc (snd (switch_vid v pin launch s)) = p_proc s
    \<and> live (snd (switch_vid v pin launch s)) = live s
    \<and> process_events (snd (switch_vid v pin launch s)) = process_events s
    \<and> (\<forall>out \<in> set (out_pins (gpio_pins v)).
          levels (snd (switch_vid v pin launch s)) out = Some LOW)"
proof -
  from assms have n: "index_of pin (in_pins v) = None"
    by (simp add: index_of_None)
  from assms have "pin \<notin> fst ` set (gpio_pins v)"
    by (simp add: in_pins_def)
  then have "\<forall>out \<in> set (out_pins (gpio_pins v)).
               levels (snd (switch_vid v pin launch s)) out = Some LOW"
    by (simp add: switch_vid_levels write_outputs_unknown)
  then show ?thesis
    by (simp add: switch_vid_playback_unknown [OF n] process_events_def write_outputs_trace)
qed

theorem C4_witness:
  "fst (switch_vid example_looper 5 (Some 101) playing_a) = Some ValueError
   \<and> p_proc (snd (switch_vid example_looper 5 (Some 101) playing_a)) = Some 100
   \<and> levels (snd (switch_vid example_looper 5 (Some 101) playing_a)) 21 = Some LOW"
proof -
  have h: "(5::int) \<notin> set (in_pins example_looper)"
    by code_simp
  have o: "(21::int) \<in> set (out_pins (gpio_pins example_looper))"
    by code_simp
  have p: "p_proc playing_a = Some 100"
    by code_simp
  show ?thesis
    using C4_unknown_pin_raises [OF h, of "Some 101" playing_a] o p by simp
qed


text \<open>
  C5, as stated, fails: with process 100 playing the first video, a press of button 19
  whose launch fails raises the error and leaves \<^verbatim>\<open>_p\<close> cleared.
\<close>

theorem C5_counterexample:
  "p_proc playing_a = Some 100
   \<and> fst (switch_vid example_looper 19 None playing_a) = Some OSError
   \<and> p_proc (snd (switch_vid example_looper 19 None playing_a)) = None"
  by code_simp

text \<open>
  C5, amended. When the transition reaches the launch and the launch raises, the error
  reaches the caller, \<^verbatim>\<open>_active_vid\<close> keeps its value, and \<^verbatim>\<open>_p\<close> is \<^verbatim>\<open>None\<close>: a
  process held before has been sent SIGINT and its handle cleared before the launch was
  tried.
\<close>

theorem C5_failed_launch:
  assumes "index_of pin (in_pins v) = Some i"
    and "i < length (videos v)"
    and "Some (videos v ! i) \<noteq> active_vid s \<or> restart_on_press v"
  shows "fst (switch_vid v pin None s) = Some OSError
    \<and> active_vid (snd (switch_vid v pin None s)) = active_vid s
    \<and> p_proc (snd (switch_vid v pin None s)) = None
    \<and> live (snd (switch_vid v pin None s))
        = (case p_proc s of None \<Rightarrow> live s | Some h \<Rightarrow> removeAll h (live s))
    \<and> process_events (snd (switch_vid v pin None s))
        = process_events s
          @ (case p_proc s of None \<Rightarrow> [] | Some h \<Rightarrow> [Killpg h SIGINT])
          @ [Popen (player_cmd v (videos v ! i)) (\<not> debug v) True None]"
  by (simp add: switch_vid_launch_fails [OF assms] kill_process_live process_events_def
        kill_process_trace write_outputs_trace split: option.splits)

theorem C5_witness:
  "fst (switch_vid example_looper 19 None playing_a) = Some OSError
   \<and> active_vid (snd (switch_vid example_looper 19 None playing_a)) = Some ''a.mp4''
   \<and> p_proc (snd (switch_vid example_looper 19 None playing_a)) = None
   \<and> live (snd (switch_vid example_looper 19 None playing_a)) = []"
proof -
  have i: "index_of 19 (in_pins example_looper) = Some 1"
    by code_simp
  have l: "1 < length (videos example_looper)"
    by code_simp
  have d: "Some (videos example_looper ! 1) \<noteq> active_vid playing_a
           \<or> restart_on_press example_looper"
    by code_simp
  have a: "active_vid playing_a = Some ''a.mp4''" and p: "p_proc playing_a = Some 100"
    and q: "live playing_a = [100]"
    by code_simp+
  show ?thesis
    using C5_failed_launch [OF i l d] a p q by simp
qed

text \<open>
  C6, as stated, fails. With three buttons for two videos, the first video is playing as
  process 100 when the spare button 13 is pressed; that call fails and leaves LED 16 lit
  and LED 21 dark. A press of button 26, whose video is the one playing, then changes
  nothing in the playback state and turns LED 21 on and LED 16 off.
\<close>

theorem C6_counterexample:
  "index_of 26 (in_pins spare_looper) = Some 0
   \<and> active_vid spare_pressed = Some (videos spare_looper ! 0)
   \<and> p_proc spare_pressed = Some 100
   \<and> live spare_pressed = [100]
   \<and> \<not> restart_on_press spare_looper
   \<and> levels spare_pressed 21 = Some LOW
   \<and> levels spare_pressed 16 = Some HIGH
   \<and> levels (snd (switch_vid spare_looper 26 (Some 102) spare_pressed)) 21 = Some HIGH
   \<and> levels (snd (switch_vid spare_looper 26 (Some 102) spare_pressed)) 16 = Some LOW"
  by code_simp

text \<open>
  C6, amended. When the video of the pressed pin is the active one and
  \<^verbatim>\<open>restart_on_press\<close> is false, \<^verbatim>\<open>switch_vid\<close> returns without error, the active
  video, the handle and the live processes are as before, no process is stopped or
  started, and the lock is taken and released around the work. The output pins are
  rewritten for the pressed pin all the same. They are unchanged if they already showed
  that pin; and when no output pin is bound to two input pins, they are unchanged only if
  they did.
\<close>

theorem C6_same_video_ignored:
  assumes "index_of pin (in_pins v) = Some i"
    and "i < length (videos v)"
    and "active_vid s = Some (videos v ! i)"
    and "\<not> restart_on_press v"
  shows "fst (switch_vid v pin launch s) = None
    \<and> active_vid (snd (switch_vid v pin launch s)) = active_vid s
    \<and> p_proc (snd (switch_vid v pin launch s)) = p_proc s
    \<and> live (snd (switch_vid v pin launch s)) = live s
    \<and> process_events (snd (switch_vid v pin launch s)) = process_events s
    \<and> added s (snd (switch_vid v pin launch s))
        = [Acquire] @ output_events (gpio_pins v) pin @ [Read F_active_vid, Release]
    \<and> levels (snd (switch_vid v pin launch s)) = levels (write_outputs (gpio_pins v) pin s)
    \<and> ((\<forall>j out. (j, Some out) \<in> set (gpio_pins v)
            \<longrightarrow> levels s out = Some (if j = pin then HIGH else LOW))
         \<longrightarrow> levels (snd (switch_vid v pin launch s)) = levels s)
    \<and> (distinct (out_pins (gpio_pins v)) \<and> levels (snd (switch_vid v pin launch s)) = levels s
         \<longrightarrow> (\<forall>j out. (j, Some out) \<in> set (gpio_pins v)
                \<longrightarrow> levels s out = Some (if j = pin then HIGH else LOW)))"
proof -
  have "(\<forall>j out. (j, Some out) \<in> set (gpio_pins v)
            \<longrightarrow> levels s out = Some (if j = pin then HIGH else LOW))
         \<longrightarrow> levels (snd (switch_vid v pin launch s)) = levels s"
    by (simp only: switch_vid_levels) (blast intro: write_outputs_idle)
  moreover have "levels s out = Some (if j = pin then HIGH else LOW)"
    if d: "distinct (out_pins (gpio_pins v))"
      and e: "levels (snd (switch_vid v pin launch s)) = levels s"
      and m: "(j, Some out) \<in> set (gpio_pins v)" for j out
  proof -
    have "levels (write_outputs (gpio_pins v) pin s) out = Some (if j = pin then HIGH else LOW)"
      using d m by (rule write_outputs_level)
    then show ?thesis
      using e by (simp add: switch_vid_levels)
  qed
  moreover have "levels (snd (switch_vid v pin launch s))
                 = levels (write_outputs (gpio_pins v) pin s)"
    by (rule switch_vid_levels)
  moreover have "added s (snd (switch_vid v pin launch s))
        = [Acquire] @ output_events (gpio_pins v) pin @ [Read F_active_vid, Release]"
    by (simp add: switch_vid_same [OF assms] added_def write_outputs_trace)
  moreover have "fst (switch_vid v pin launch s) = None
    \<and> active_vid (snd (switch_vid v pin launch s)) = active_vid s
    \<and> p_proc (snd (switch_vid v pin launch s)) = p_proc s
    \<and> live (snd (switch_vid v pin launch s)) = live s
    \<and> process_events (snd (switch_vid v pin launch s)) = process_events s"
    by (simp add: switch_vid_same [OF assms] process_events_def write_outputs_trace)
  ultimately show ?thesis by blast
qed

theorem C6_witness:
  "fst (switch_vid example_looper 26 (Some 101) playing_a) = None
   \<and> p_proc (snd (switch_vid example_looper 26 (Some 101) playing_a)) = Some 100
   \<and> levels (snd (switch_vid example_looper 26 (Some 101) playing_a)) = levels playing_a
   \<and> levels playing_a 21 = Some HIGH
   \<and> levels playing_a 20 = Some LOW"
proof -
  have i: "index_of 26 (in_pins example_looper) = Some 0"
    by code_simp
  have l: "0 < length (videos example_looper)"
    by code_simp
  have a: "active_vid playing_a = Some (videos example_looper ! 0)"
    by code_simp
  have r: "\<not> restart_on_press example_looper"
    by code_simp
  have p: "p_proc playing_a = Some 100"
    by code_simp
  have d: "distinct (out_pins (gpio_pins example_looper))"
    by code_simp
  have "levels playing_a 21 = Some HIGH" and "levels playing_a 20 = Some LOW"
    by code_simp+
  then have c: "\<forall>j out. (j, Some out) \<in> set (gpio_pins example_looper)
            \<longrightarrow> levels playing_a out = Some (if j = 26 then HIGH else LOW)"
    by (simp add: example_looper_def)
  note k = C6_same_video_ignored [OF i l a r, of "Some 101"]
  from k have e: "fst (switch_vid example_looper 26 (Some 101) playing_a) = None"
    and h: "p_proc (snd (switch_vid example_looper 26 (Some 101) playing_a)) = p_proc playing_a"
    by blast+
  from k c have q: "levels (snd (switch_vid example_looper 26 (Some 101) playing_a))
                 = levels playing_a"
    by blast
  from k d q have u: "\<forall>j out. (j, Some out) \<in> set (gpio_pins example_looper)
         \<longrightarrow> levels playing_a out = Some (if j = 26 then HIGH else LOW)"
    by blast
  have "(26, Some 21) \<in> set (gpio_pins example_looper)"
    and "(19, Some 20) \<in> set (gpio_pins example_looper)"
    by (simp_all add: example_looper_def)
  with u have "levels playing_a 21 = Some (if (26::int) = 26 then HIGH else LOW)"
    and "levels playing_a 20 = Some (if (19::int) = 26 then HIGH else LOW)"
    by blast+
  with e h p q show ?thesis by simp
qed



theorem C1_witness:
  "length (live (presses example_looper [(26, Some 100), (19, None), (19, Some 101)] initial)) \<le> 1
   \<and> live (presses example_looper [(26, Some 100), (19, None), (19, Some 101)] initial)
     = (case p_proc (presses example_looper [(26, Some 100), (19, None), (19, Some 101)] initial)
        of None \<Rightarrow> [] | Some h \<Rightarrow> [h])"
  by (rule C1_at_most_one_player)

text \<open>
  C3. The assertion after the video list is assembled measures the argument
  \<^verbatim>\<open>videos\<close>, not \<^verbatim>\<open>self.videos\<close>. With no videos on the command line (an empty
  sequence) and a directory holding five video files, the constructor succeeds with five
  videos for the four default pins.
\<close>

theorem C3_directory_videos_unchecked:
  "(case init (\<lambda>f. True)
          (\<lambda>d. Some [''e.mp4'', ''b.mkv'', ''notes.txt'', ''a.mp4'', ''d.avi'', ''c.mov''])
          ''hdmi'' True False ''/home/pi/videos'' (Some []) None True False None None False
    of Inl e \<Rightarrow> False
     | Inr v \<Rightarrow> length (videos v) = 5 \<and> length (gpio_pins v) = 4)"
  by code_simp

text \<open>
  With videos given explicitly the assertion does its work, and with the default
  \<^verbatim>\<open>videos=None\<close> the constructor cannot succeed at all.
\<close>

lemma init_explicit_videos_checked:
  assumes "init path_exists listdir a_audio a_autostart a_restart video_dir (Some (x # xs))
             a_gpio_pins a_loop a_no_osd a_shutdown_pin a_splash a_debug = Inr v"
  shows "length (videos v) \<le> length (gpio_pins v)"
  using assms
  by (auto simp: init_def assemble_videos_def Let_def split: if_splits option.splits)

lemma init_default_videos_type_error:
  "listdir video_dir = Some names \<Longrightarrow>
   filter (\<lambda>f. splitext_ext f \<in> set VIDEO_EXTS) (sort names) \<noteq> [] \<Longrightarrow>
   init path_exists listdir a_audio a_autostart a_restart video_dir None
     a_gpio_pins a_loop a_no_osd a_shutdown_pin a_splash a_debug = Inl TypeError"
  by (simp add: init_def assemble_videos_def Let_def)

lemma reset_led_fields [simp]:
  "active_vid (reset_led s o_pin) = active_vid s" "p_proc (reset_led s o_pin) = p_proc s"
  "splashproc (reset_led s o_pin) = splashproc s" "live (reset_led s o_pin) = live s"
  by (simp_all add: reset_led_def split: option.splits)

lemma foldl_reset_led_fields [simp]:
  "active_vid (foldl reset_led s os) = active_vid s" "p_proc (foldl reset_led s os) = p_proc s"
  "splashproc (foldl reset_led s os) = splashproc s" "live (foldl reset_led s os) = live s"
  by (induction os arbitrary: s) simp_all

lemma foldl_reset_led_process [simp]:
  "filter is_process_event (trace (foldl reset_led s os)) = filter is_process_event (trace s)"
  by (induction os arbitrary: s) (simp_all add: reset_led_def split: option.splits)

lemma foldl_reset_led_levels:
  "levels s out = Some LOW \<or> Some out \<in> set os \<Longrightarrow>
   levels (foldl reset_led s os) out = Some LOW"
proof (induction os arbitrary: s)
  case Nil
  then show ?case by simp
next
  case (Cons x os)
  have "levels (reset_led s x) out = Some LOW \<or> Some out \<in> set os"
    using Cons.prems by (auto simp: reset_led_def split: option.splits)
  then show ?case
    by (simp add: Cons.IH)
qed

lemma reset_leds_levels:
  assumes "out \<in> set (out_pins pins)"
  shows "levels (reset_leds pins s) out = Some LOW"
proof -
  from assms obtain i where "(i, Some out) \<in> set pins"
    by (auto simp: out_pins_iff)
  then have "Some out \<in> set (map snd pins)"
    by force
  then show ?thesis
    unfolding reset_leds_def by (simp add: foldl_reset_led_levels)
qed

lemma reset_leds_fields [simp]:
  "active_vid (reset_leds pins s) = active_vid s" "p_proc (reset_leds pins s) = p_proc s"
  "splashproc (reset_leds pins s) = splashproc s" "live (reset_leds pins s) = live s"
  "filter is_process_event (trace (reset_leds pins s)) = filter is_process_event (trace s)"
  by (simp_all add: reset_leds_def)

text \<open>
  C7. With looping off and a player process held, one iteration of the polling loop (the
  wait returns when the player has exited) clears the active video and the handle and
  drives every configured output pin LOW; it stops and starts no process and needs no
  button press.
\<close>

theorem C7_poll_resets_to_idle:
  assumes "\<not> loop v" and "p_proc s = Some h"
  shows "active_vid (poll_tick v s) = None
    \<and> p_proc (poll_tick v s) = None
    \<and> live (poll_tick v s) = removeAll h (live s)
    \<and> process_events (poll_tick v s) = process_events s
    \<and> (\<forall>out \<in> set (out_pins (gpio_pins v)). levels (poll_tick v s) out = Some LOW)"
  using assms
  by (simp add: poll_tick_def Let_def communicate_def process_events_def reset_leds_levels)

theorem C7_witness:
  "active_vid (poll_tick once_looper once_playing) = None
   \<and> p_proc (poll_tick once_looper once_playing) = None
   \<and> live (poll_tick once_looper once_playing) = []
   \<and> levels (poll_tick once_looper once_playing) 21 = Some LOW
   \<and> levels (poll_tick once_looper once_playing) 20 = Some LOW"
proof -
  have n: "\<not> loop once_looper"
    by code_simp
  have p: "p_proc once_playing = Some 100"
    by code_simp
  have l: "live once_playing = [100]"
    by code_simp
  have o: "out_pins (gpio_pins once_looper) = [21, 20]"
    by code_simp
  show ?thesis
    using C7_poll_resets_to_idle [OF n p] l o by simp
qed

lemma guarded_append:
  "guarded held (xs @ ys) = (guarded held xs \<and> guarded (lock_after held xs) ys)"
  by (induction held xs rule: guarded.induct) simp_all

lemma lock_after_append:
  "lock_after held (xs @ ys) = lock_after (lock_after held xs) ys"
  by (induction held xs rule: lock_after.induct) simp_all

lemma output_events_guarded [simp]:
  "guarded held (output_events pins pin)" "lock_after held (output_events pins pin) = held"
  unfolding output_events_def
  by (induction pins) (simp_all add: output_event_def guarded_append lock_after_append
        split: option.splits)

lemma added_append [simp]: "trace s' = trace s @ es \<Longrightarrow> added s s' = es"
  by (simp add: added_def)

lemma switch_vid_trace:
  "\<exists>es. trace (snd (switch_vid v pin launch s))
        = trace s @ [Acquire] @ output_events (gpio_pins v) pin @ es
      \<and> guarded True es \<and> \<not> lock_after True es
      \<and> GpioCleanup \<notin> set es"
  by (auto simp: switch_vid_def Let_def write_outputs_trace kill_process_trace
        split: option.splits)

lemma reset_leds_trace:
  "trace (reset_leds pins s) = trace s @ map (\<lambda>out. GpioOutput out LOW) (out_pins pins)"
  unfolding reset_leds_def
  by (induction pins arbitrary: s)
     (simp_all add: reset_led_def out_pins_Cons split: option.splits)

lemma poll_tick_trace:
  "\<exists>es. trace (poll_tick v s) = trace s @ SleepHalfSecond # es
      \<and> Acquire \<notin> set es \<and> GpioCleanup \<notin> set es \<and> (\<not> loop v \<longrightarrow> es \<noteq> [] \<and> hd es = Read F_p)"
  by (auto simp: poll_tick_def Let_def communicate_def reset_leds_trace split: option.splits)

text \<open>
  C9, as stated, fails: with looping off and a video playing, an iteration of the polling
  loop reads and writes \<^verbatim>\<open>_p\<close> and never takes the lock.
\<close>

theorem C9_counterexample:
  "guarded False (trace once_playing)
   \<and> \<not> guarded False (trace (poll_tick once_looper once_playing))
   \<and> Write F_p \<in> set (added once_playing (poll_tick once_looper once_playing))
   \<and> Acquire \<notin> set (added once_playing (poll_tick once_looper once_playing))"
  by code_simp

text \<open>
  C9, amended. Every access of the playback state that \<^verbatim>\<open>switch_vid\<close> makes lies
  between its acquiring and its releasing the lock, and the lock is free when it returns.
  An iteration of the polling loop never acquires the lock, and with looping off it
  accesses the playback state without it.
\<close>

theorem C9_lock_only_in_switch_vid:
  "guarded False (added s (snd (switch_vid v pin launch s)))
   \<and> \<not> lock_after False (added s (snd (switch_vid v pin launch s)))
   \<and> Acquire \<notin> set (added s (poll_tick v s))
   \<and> (\<not> loop v \<longrightarrow> \<not> guarded False (added s (poll_tick v s)))"
proof -
  obtain es where es: "trace (snd (switch_vid v pin launch s))
        = trace s @ [Acquire] @ output_events (gpio_pins v) pin @ es"
      "guarded True es" "\<not> lock_after True es"
    using switch_vid_trace by blast
  have a: "added s (snd (switch_vid v pin launch s))
           = [Acquire] @ output_events (gpio_pins v) pin @ es"
    by (rule added_append) (rule es(1))
  obtain ps where ps: "trace (poll_tick v s) = trace s @ SleepHalfSecond # ps"
      "Acquire \<notin> set ps" "\<not> loop v \<longrightarrow> ps \<noteq> [] \<and> hd ps = Read F_p"
    using poll_tick_trace by blast
  have b: "added s (poll_tick v s) = SleepHalfSecond # ps"
    by (rule added_append) (rule ps(1))
  have "\<not> guarded False ps" if "\<not> loop v"
  proof -
    from that ps(3) obtain rest where "ps = Read F_p # rest"
      by (cases ps) auto
    then show ?thesis by simp
  qed
  with es(2,3) ps(2) show ?thesis
    unfolding a b by (simp add: guarded_append lock_after_append)
qed

theorem C9_witness:
  "guarded False (added playing_a (snd (switch_vid example_looper 19 (Some 101) playing_a)))
   \<and> \<not> guarded False (added once_playing (poll_tick once_looper once_playing))"
proof -
  have n: "\<not> loop once_looper"
    by code_simp
  show ?thesis
    using C9_lock_only_in_switch_vid [of playing_a example_looper 19 "Some 101"]
      C9_lock_only_in_switch_vid [of once_playing once_looper] n
    by blast
qed


lemma cleanups_emit [simp]: "cleanups (emit e s) = cleanups s + (if e = GpioCleanup then 1 else 0)"
  by (simp add: cleanups_def)

lemma cleanups_trace: "trace s' = trace s @ es \<Longrightarrow> GpioCleanup \<notin> set es \<Longrightarrow> cleanups s' = cleanups s"
  by (auto simp: cleanups_def filter_empty_conv)

lemma output_events_no_cleanup: "GpioCleanup \<notin> set (output_events pins pin)"
  by (auto simp: output_events_def output_event_def split: option.splits)

lemma cleanups_switch_vid [simp]: "cleanups (snd (switch_vid v pin launch s)) = cleanups s"
proof -
  obtain es where "trace (snd (switch_vid v pin launch s))
        = trace s @ [Acquire] @ output_events (gpio_pins v) pin @ es" "GpioCleanup \<notin> set es"
    using switch_vid_trace by blast
  then show ?thesis
    by (intro cleanups_trace [where es = "[Acquire] @ output_events (gpio_pins v) pin @ es"])
       (simp_all add: output_events_no_cleanup)
qed

lemma cleanups_poll_tick [simp]: "cleanups (poll_tick v s) = cleanups s"
proof -
  obtain es where "trace (poll_tick v s) = trace s @ SleepHalfSecond # es" "GpioCleanup \<notin> set es"
    using poll_tick_trace by blast
  then show ?thesis
    by (intro cleanups_trace [where es = "SleepHalfSecond # es"]) simp_all
qed

lemma cleanups_run_step [simp]: "cleanups (run_step v s st) = cleanups s"
  by (cases st) simp_all

lemma cleanups_steps [simp]: "cleanups (foldl (run_step v) s sched) = cleanups s"
  by (induction sched arbitrary: s) simp_all

lemma cleanups_gpio_output [simp]: "cleanups (gpio_output out l s) = cleanups s"
  by (simp add: cleanups_def)

lemma cleanups_setup_pins [simp]: "cleanups (foldl setup_pin s pins) = cleanups s"
  by (induction pins arbitrary: s) (simp_all add: setup_pin_def Let_def split: option.splits)

lemma cleanups_detect [simp]:
  "cleanups (foldl (\<lambda>s pin. emit (GpioAddEventDetect pin) s) s pins) = cleanups s"
  by (induction pins arbitrary: s) simp_all

lemma cleanups_splash [simp]: "cleanups (s\<lparr>splashproc := x\<rparr>) = cleanups s"
  by (simp add: cleanups_def)







lemma splashproc_switch_vid [simp]: "splashproc (snd (switch_vid v pin launch s)) = splashproc s"
  by (simp add: switch_vid_def Let_def split: option.splits)

lemma splashproc_setup_pins [simp]: "splashproc (foldl setup_pin s pins) = splashproc s"
  by (induction pins arbitrary: s) (simp_all add: setup_pin_def Let_def split: option.splits)

lemma splashproc_setup_shutdown [simp]: "splashproc (setup_shutdown v s) = splashproc s"
  by (simp add: setup_shutdown_def split: option.splits)






text \<open>
  An exception before the \<^verbatim>\<open>try\<close>, such as a failed launch of the autostart, leaves
  \<^verbatim>\<open>start\<close> itself without the teardown.
\<close>

lemma start_setup_failure_skips_teardown:
  "fst (start example_looper None [] KeyboardInterrupt initial) = Raised OSError
   \<and> cleanups (snd (start example_looper None [] KeyboardInterrupt initial)) = 0"
  by code_simp

end
